theory Spec2Isabelle
  imports Complex_Main "HOL-Library.AList" "HOL-Library.Multiset" "HOL-Library.Sublist"
begin

section \<open>RustChain network monitor\<close>

text \<open>
  A shallow embedding of \<^verbatim>\<open>rustchain_monitor.py\<close>. The values that the node returns are
  typed as the annotations of the source and the consumed API declare them:
  \<^verbatim>\<open>get_epoch() -> Dict\<close> with an integer \<^verbatim>\<open>current_epoch\<close>,
  \<^verbatim>\<open>get_miners() -> List[Dict]\<close> with string-valued \<^verbatim>\<open>miner\<close>, \<^verbatim>\<open>miner_id\<close> and
  \<^verbatim>\<open>device_arch\<close> and a numeric \<^verbatim>\<open>last_attestation_time\<close>,
  \<^verbatim>\<open>get_miner_balance() -> float\<close>. A key that a dictionary may lack is
  an \<open>option\<close> field, \<open>None\<close> standing for the absent key, so that every
  \<^verbatim>\<open>.get(key, default)\<close> of the source is a case distinction of the model.
  Console output is a list of events; the layout of the printed text is not modelled.
\<close>

subsection \<open>Python floats\<close>

text \<open>
  A Python \<^verbatim>\<open>float\<close> is an IEEE 754 binary64 number: a finite value (a rational), an
  infinity or a NaN. The two zeros are identified, since they compare equal and differ
  only in the sign that is printed.
\<close>

datatype float64 = Fin rat | PInf | NInf | NaN

text \<open>
  \<open>exponent a\<close> is the binade of a positive \<open>a\<close>: the largest \<open>e\<close> between \<open>-1022\<close> and
  \<open>1024\<close> with \<open>2 powi e \<le> a\<close>, and \<open>-1022\<close> for a subnormal \<open>a\<close>.
\<close>

fun binade :: "nat \<Rightarrow> int \<Rightarrow> rat \<Rightarrow> int" where
  "binade 0 e a = e"
| "binade (Suc k) e a = (if 2 powi (e + 1) \<le> a then binade k (e + 1) a else e)"

definition exponent :: "rat \<Rightarrow> int" where
  "exponent a = binade 2046 (- 1022) a"

definition round_half_even :: "rat \<Rightarrow> int" where
  "round_half_even x =
     (let n = \<lfloor>x\<rfloor>; r = x - of_int n
      in if r < 1/2 then n else if 1/2 < r then n + 1 else if even n then n else n + 1)"

text \<open>
  Rounding of a rational to the nearest binary64 number, ties to the even significand:
  the spacing of the doubles in the binade \<open>e\<close> is \<open>2 powi (e - 52)\<close>, and a result of
  magnitude \<open>2 powi 1024\<close> or more overflows to an infinity. A float literal of the source
  denotes the rounding of its decimal value.
\<close>

definition round_double :: "rat \<Rightarrow> float64" where
  "round_double q =
     (if q = 0 then Fin 0
      else let a = \<bar>q\<bar>; u = 2 powi (exponent a - 52);
               r = of_int (round_half_even (a / u)) * u
           in if 2 powi 1024 \<le> r then (if 0 < q then PInf else NInf)
              else Fin (sgn q * r))"

text \<open>Python's \<^verbatim>\<open>*\<close>, \<^verbatim>\<open>-\<close> and \<^verbatim>\<open><\<close> on floats.\<close>

fun fmul :: "float64 \<Rightarrow> float64 \<Rightarrow> float64" where
  "fmul (Fin a) (Fin b) = round_double (a * b)"
| "fmul NaN y = NaN"
| "fmul x NaN = NaN"
| "fmul (Fin a) PInf = (if a = 0 then NaN else if 0 < a then PInf else NInf)"
| "fmul (Fin a) NInf = (if a = 0 then NaN else if 0 < a then NInf else PInf)"
| "fmul PInf (Fin b) = (if b = 0 then NaN else if 0 < b then PInf else NInf)"
| "fmul NInf (Fin b) = (if b = 0 then NaN else if 0 < b then NInf else PInf)"
| "fmul PInf PInf = PInf"
| "fmul PInf NInf = NInf"
| "fmul NInf PInf = NInf"
| "fmul NInf NInf = PInf"

fun fsub :: "float64 \<Rightarrow> float64 \<Rightarrow> float64" where
  "fsub (Fin a) (Fin b) = round_double (a - b)"
| "fsub NaN y = NaN"
| "fsub x NaN = NaN"
| "fsub (Fin a) PInf = NInf"
| "fsub (Fin a) NInf = PInf"
| "fsub PInf (Fin b) = PInf"
| "fsub NInf (Fin b) = NInf"
| "fsub PInf PInf = NaN"
| "fsub PInf NInf = PInf"
| "fsub NInf PInf = NInf"
| "fsub NInf NInf = NaN"

fun flt :: "float64 \<Rightarrow> float64 \<Rightarrow> bool" where
  "flt (Fin a) (Fin b) = (a < b)"
| "flt NaN y = False"
| "flt x NaN = False"
| "flt (Fin a) PInf = True"
| "flt (Fin a) NInf = False"
| "flt PInf y = False"
| "flt NInf (Fin b) = True"
| "flt NInf PInf = True"
| "flt NInf NInf = False"

text \<open>
  The values of the type: a finite value is a binary64 number when rounding leaves it
  unchanged.
\<close>

fun is_float64 :: "float64 \<Rightarrow> bool" where
  "is_float64 (Fin q) = (round_double q = Fin q)"
| "is_float64 x = True"

subsection \<open>Data model\<close>

text \<open>One element of the list served by \<^verbatim>\<open>/api/miners\<close>.\<close>

record miner_info =
  miner :: "string option"
  miner_id :: "string option"
  device_arch :: "string option"
  last_attestation_time :: "float64 option"

text \<open>The JSON objects served by \<^verbatim>\<open>/epoch\<close>, \<^verbatim>\<open>/wallet/balance\<close> and \<^verbatim>\<open>/health\<close>.\<close>

record epoch_data =
  current_epoch :: "int option"

record balance_data =
  balance_rtc :: "float64 option"

record health_data =
  ok :: "bool option"

text \<open>
  What a call can raise: \<^verbatim>\<open>KeyboardInterrupt\<close>, or an instance of \<^verbatim>\<open>Exception\<close> with
  its message. A request of the API client returns the decoded JSON or raises.
\<close>

datatype exn = KeyboardInterrupt | Exception string

subsection \<open>Reward estimator\<close>

text \<open>
  \<^verbatim>\<open>str.lower()\<close>, on strings as byte sequences: the ASCII capitals are mapped to their
  small letters and every other byte is kept. Python also maps capitals outside ASCII,
  but never to a string that is a key of the table below, so the lookup of line 65
  finds the same entry.
\<close>

definition lower_char :: "char \<Rightarrow> char" where
  "lower_char c =
     (case map_of (zip ''ABCDEFGHIJKLMNOPQRSTUVWXYZ'' ''abcdefghijklmnopqrstuvwxyz'') c of
        Some d \<Rightarrow> d
      | None \<Rightarrow> c)"

definition lower :: "string \<Rightarrow> string" where
  "lower s = map lower_char s"

text \<open>The dictionary literal of lines 54--62.\<close>

definition multipliers :: "(string \<times> float64) list" where
  "multipliers =
     [(''g4'', round_double (5/2)),
      (''g5'', round_double 2),
      (''g3'', round_double (9/5)),
      (''power8'', round_double (3/2)),
      (''retro'', round_double (7/5)),
      (''apple_silicon'', round_double (6/5)),
      (''modern'', round_double 1)]"

text \<open>Line 65: \<^verbatim>\<open>multiplier = multipliers.get(device_arch.lower(), 1.0)\<close>.\<close>

definition multiplier :: "string \<Rightarrow> float64" where
  "multiplier arch =
     (case map_of multipliers (lower arch) of Some m \<Rightarrow> m | None \<Rightarrow> round_double 1)"

text \<open>Lines 52--68.\<close>

definition calculate_expected_reward :: "string \<Rightarrow> float64" where
  "calculate_expected_reward arch =
     (let base_reward = round_double (3/2);
          mult = (case map_of multipliers (lower arch) of
                    Some m \<Rightarrow> m
                  | None \<Rightarrow> round_double 1)
      in fmul base_reward mult)"

subsection \<open>Miner lookup of the watch loop\<close>

text \<open>
  Lines 86--90 of the source:
  \<^verbatim>\<open>
  our_miner = None
  for m in miners:
      if m.get("miner") == miner_id or m.get("miner_id") == miner_id:
          our_miner = m
          break
  \<close>
  The watched id is a string, so \<^verbatim>\<open>m.get(k) == miner_id\<close> holds exactly when the key is
  present with that string as its value.
\<close>

fun find_miner :: "miner_info list \<Rightarrow> string \<Rightarrow> miner_info option" where
  "find_miner [] target = None"
| "find_miner (m # ms) target =
     (if miner m = Some target \<or> miner_id m = Some target then Some m
      else find_miner ms target)"

subsection \<open>Watch loop\<close>

text \<open>
  The environment of one iteration of \<^verbatim>\<open>while True\<close>: what each call that reaches outside
  the program returns or raises. A field \<open>\<dots>_raises\<close> is \<open>None\<close> when the call returns.
\<close>

record cycle =
  epoch_result :: "exn + epoch_data"
  balance_result :: "exn + balance_data"
  miners_result :: "exn + miner_info list"
  clock :: float64
  display_raises :: "exn option"
  alert_raises :: "exn option"
  sleep_raises :: "exn option"
  handler_print_raises :: "exn option"
  handler_sleep_raises :: "exn option"

text \<open>The local variables that the loop carries from one iteration to the next.\<close>

record session =
  last_balance :: float64
  last_epoch :: int

text \<open>
  What \<^verbatim>\<open>watch_miner\<close> does that can be observed: the two opening lines (watched id and
  interval), the status box (watched id cut to 40 characters, balance, epoch and, for a
  miner that was found, hardware, expected reward and whether it is active), the
  new-epoch alert with the earned reward, the farewell, an error message, and a
  completed sleep of the given number of seconds.
\<close>

datatype event =
    Watching string int
  | Snapshot string float64 int "(string \<times> float64 \<times> bool) option"
  | NewEpoch float64
  | Farewell
  | ErrorMsg string
  | Slept int

text \<open>Line 50: \<^verbatim>\<open>response.json().get("balance_rtc", 0.0)\<close>.\<close>

definition get_miner_balance :: "exn + balance_data \<Rightarrow> exn + float64" where
  "get_miner_balance response =
     (case response of
        Inl e \<Rightarrow> Inl e
      | Inr d \<Rightarrow> Inr (case balance_rtc d of Some b \<Rightarrow> b | None \<Rightarrow> Fin 0))"

text \<open>
  \<^verbatim>\<open>time.sleep(interval)\<close>, as CPython 3.11 has it for an integer. It raises \<^verbatim>\<open>ValueError\<close>
  for a negative argument, and \<^verbatim>\<open>OverflowError\<close> for an argument whose nanoseconds do not
  fit in 64 bits, which is one above 9223372036. Otherwise it returns, unless something
  outside the program makes it raise: Ctrl-C, or the operating system refusing the
  deadline (\<^verbatim>\<open>OSError\<close>, for a deadline beyond the range of the system's clock).
\<close>

definition sleep :: "int \<Rightarrow> exn option \<Rightarrow> exn option" where
  "sleep interval interrupted =
     (if interval < 0 then Some (Exception ''sleep length must be non-negative'')
      else if interval > 9223372036
      then Some (Exception ''timestamp too large to convert to C _PyTime_t'')
      else interrupted)"

text \<open>
  \<^verbatim>\<open>s[:n]\<close> on a string given by the bytes of its UTF-8 encoding: the first \<open>n\<close>
  characters, each with the bytes that continue it (the bytes \<^verbatim>\<open>10xxxxxx\<close>).
\<close>

fun is_continuation :: "char \<Rightarrow> bool" where
  "is_continuation (Char b0 b1 b2 b3 b4 b5 b6 b7) = (b7 \<and> \<not> b6)"

fun take_chars :: "nat \<Rightarrow> string \<Rightarrow> string" where
  "take_chars n [] = []"
| "take_chars n (c # cs) =
     (if is_continuation c then c # take_chars n cs
      else if n = 0 then []
      else c # take_chars (n - 1) cs)"

text \<open>Lines 95--117: the status box. Line 101 shows \<^verbatim>\<open>miner_id[:40]\<close>.\<close>

definition display :: "string \<Rightarrow> float64 \<Rightarrow> int \<Rightarrow> miner_info option \<Rightarrow> float64 \<Rightarrow> event" where
  "display target balance cur our_miner now =
     Snapshot (take_chars 40 target) balance cur
       (case our_miner of
          None \<Rightarrow> None
        | Some m \<Rightarrow>
            let arch = (case device_arch m of Some a \<Rightarrow> a | None \<Rightarrow> ''unknown'');
                last_attest = (case last_attestation_time m of Some t \<Rightarrow> t | None \<Rightarrow> Fin 0);
                expected = calculate_expected_reward arch
            in Some (arch, expected, flt (fsub now last_attest) (Fin 3600)))"

text \<open>
  Lines 124--127: the session is overwritten, then the loop sleeps. The result is the
  output, the session as the statements left it, and the exception raised, if any.
\<close>

definition update_and_sleep ::
    "int \<Rightarrow> cycle \<Rightarrow> float64 \<Rightarrow> int \<Rightarrow> event list \<Rightarrow> event list \<times> session \<times> exn option" where
  "update_and_sleep interval c balance cur out =
     (let s' = \<lparr>last_balance = balance, last_epoch = cur\<rparr>
      in case sleep interval (sleep_raises c) of
           Some e \<Rightarrow> (out, s', Some e)
         | None \<Rightarrow> (out @ [Slept interval], s', None))"

text \<open>Lines 80--127: the body of the \<^verbatim>\<open>try\<close> statement.\<close>

definition try_body ::
    "string \<Rightarrow> int \<Rightarrow> cycle \<Rightarrow> session \<Rightarrow> event list \<times> session \<times> exn option" where
  "try_body target interval c s =
     (case epoch_result c of
        Inl e \<Rightarrow> ([], s, Some e)
      | Inr epoch \<Rightarrow>
     (case get_miner_balance (balance_result c) of
        Inl e \<Rightarrow> ([], s, Some e)
      | Inr balance \<Rightarrow>
     (case miners_result c of
        Inl e \<Rightarrow> ([], s, Some e)
      | Inr miners \<Rightarrow>
        let our_miner = find_miner miners target;
            cur = (case current_epoch epoch of Some n \<Rightarrow> n | None \<Rightarrow> 0)
        in case display_raises c of
             Some e \<Rightarrow> ([], s, Some e)
           | None \<Rightarrow>
             let out = [display target balance cur our_miner (clock c)]
             in if cur > last_epoch s \<and> last_epoch s > 0
                then (case alert_raises c of
                        Some e \<Rightarrow> (out, s, Some e)
                      | None \<Rightarrow>
                          let reward = fsub balance (last_balance s)
                          in update_and_sleep interval c balance cur (out @ [NewEpoch reward]))
                else update_and_sleep interval c balance cur out)))"

text \<open>
  How an iteration ends: the loop goes on with the session, it is left by
  \<^verbatim>\<open>break\<close>, or an exception leaves \<^verbatim>\<open>watch_miner\<close>.
\<close>

datatype outcome = Continue session | Break | Propagate exn

text \<open>
  Lines 129--134: the two \<^verbatim>\<open>except\<close> clauses. An exception raised inside a clause is
  not caught by the statement.
\<close>

definition iteration :: "string \<Rightarrow> int \<Rightarrow> cycle \<Rightarrow> session \<Rightarrow> event list \<times> outcome" where
  "iteration target interval c s =
     (case try_body target interval c s of
        (out, s', None) \<Rightarrow> (out, Continue s')
      | (out, s', Some KeyboardInterrupt) \<Rightarrow>
          (case handler_print_raises c of
             Some e \<Rightarrow> (out, Propagate e)
           | None \<Rightarrow> (out @ [Farewell], Break))
      | (out, s', Some (Exception msg)) \<Rightarrow>
          (case handler_print_raises c of
             Some e \<Rightarrow> (out, Propagate e)
           | None \<Rightarrow>
               (case sleep interval (handler_sleep_raises c) of
                  Some e \<Rightarrow> (out @ [ErrorMsg msg], Propagate e)
                | None \<Rightarrow> (out @ [ErrorMsg msg, Slept interval], Continue s'))))"

text \<open>
  The loop of line 78, run against the environments of its first iterations. It ends
  with \<open>Continue\<close> when it is still running after the last of them.
\<close>

fun watch_loop :: "string \<Rightarrow> int \<Rightarrow> session \<Rightarrow> cycle list \<Rightarrow> event list \<times> outcome" where
  "watch_loop target interval s [] = ([], Continue s)"
| "watch_loop target interval s (c # cs) =
     (case iteration target interval c s of
        (out, Continue s') \<Rightarrow>
          (let (out', r) = watch_loop target interval s' cs in (out @ out', r))
      | (out, r) \<Rightarrow> (out, r))"

text \<open>Lines 70--134.\<close>

definition watch_miner :: "string \<Rightarrow> int \<Rightarrow> cycle list \<Rightarrow> event list \<times> outcome" where
  "watch_miner target interval cs =
     (let (out, r) = watch_loop target interval \<lparr>last_balance = Fin 0, last_epoch = 0\<rparr> cs
      in (Watching target interval # out, r))"

subsection \<open>Network summary\<close>

text \<open>
  Lines 151--154. A Python dictionary keeps its keys in insertion order: an assignment
  to a present key replaces the value in place and a new key goes to the end, which is
  \<^const>\<open>AList.update\<close>.
\<close>

fun group_by_arch :: "(string \<times> int) list \<Rightarrow> miner_info list \<Rightarrow> (string \<times> int) list" where
  "group_by_arch by_arch [] = by_arch"
| "group_by_arch by_arch (m # ms) =
     (let arch = (case device_arch m of Some a \<Rightarrow> a | None \<Rightarrow> ''unknown'');
          n = (case map_of by_arch arch of Some k \<Rightarrow> k | None \<Rightarrow> 0)
      in group_by_arch (AList.update arch (n + 1) by_arch) ms)"

text \<open>What the report shows.\<close>

record summary =
  node_healthy :: bool
  epoch_shown :: "int option"
  miner_count :: nat
  distribution :: "(string \<times> int) list"

text \<open>
  Lines 136--158. An exception of a request leaves the function. \<^verbatim>\<open>sorted\<close> is stable,
  as \<^const>\<open>sort_key\<close> is.
\<close>

definition network_summary ::
    "exn + health_data \<Rightarrow> exn + epoch_data \<Rightarrow> exn + miner_info list \<Rightarrow> exn + summary" where
  "network_summary health_result epoch_res miners_res =
     (case health_result of
        Inl e \<Rightarrow> Inl e
      | Inr health \<Rightarrow>
     (case epoch_res of
        Inl e \<Rightarrow> Inl e
      | Inr epoch \<Rightarrow>
     (case miners_res of
        Inl e \<Rightarrow> Inl e
      | Inr miners \<Rightarrow>
        let by_arch = group_by_arch [] miners
        in Inr \<lparr>node_healthy = (case ok health of Some b \<Rightarrow> b | None \<Rightarrow> False),
                epoch_shown = current_epoch epoch,
                miner_count = length miners,
                distribution = sort_key (\<lambda>x. - snd x) by_arch\<rparr>)))"

subsection \<open>Example environments\<close>

text \<open>An iteration in which every call returns: epoch 4, balance 5.0, no miners.\<close>

definition example_cycle :: cycle where
  "example_cycle =
     \<lparr>epoch_result = Inr \<lparr>current_epoch = Some 4\<rparr>,
      balance_result = Inr \<lparr>balance_rtc = Some (Fin 5)\<rparr>,
      miners_result = Inr [],
      clock = Fin 1700000000,
      display_raises = None, alert_raises = None, sleep_raises = None,
      handler_print_raises = None, handler_sleep_raises = None\<rparr>"

text \<open>Epoch 7 and balance 5.0 are fetched, then the request for the miners fails.\<close>

definition failing_cycle :: cycle where
  "failing_cycle =
     \<lparr>epoch_result = Inr \<lparr>current_epoch = Some 7\<rparr>,
      balance_result = Inr \<lparr>balance_rtc = Some (Fin 5)\<rparr>,
      miners_result = Inl (Exception ''connection refused''),
      clock = Fin 1700000000,
      display_raises = None, alert_raises = None, sleep_raises = None,
      handler_print_raises = None, handler_sleep_raises = None\<rparr>"

text \<open>
  The node does not answer, and the operator presses Ctrl-C while the handler of the
  error sleeps (line 134).
\<close>

definition interrupted_cycle :: cycle where
  "interrupted_cycle =
     \<lparr>epoch_result = Inl (Exception ''connection refused''),
      balance_result = Inl (Exception ''connection refused''),
      miners_result = Inl (Exception ''connection refused''),
      clock = Fin 1700000000,
      display_raises = None, alert_raises = None, sleep_raises = None,
      handler_print_raises = None, handler_sleep_raises = Some KeyboardInterrupt\<rparr>"

text \<open>Every call returns, and the operator presses Ctrl-C during the sleep of line 127.\<close>

definition cancelled_cycle :: cycle where
  "cancelled_cycle = example_cycle\<lparr>sleep_raises := Some KeyboardInterrupt\<rparr>"

text \<open>
  The standard output is a pipe whose reader has gone: the print of the status box
  raises \<^verbatim>\<open>BrokenPipeError\<close>, and so does the print of the handler (line 133).
\<close>

definition broken_pipe_cycle :: cycle where
  "broken_pipe_cycle =
     example_cycle\<lparr>display_raises := Some (Exception ''[Errno 32] Broken pipe''),
                   handler_print_raises := Some (Exception ''[Errno 32] Broken pipe'')\<rparr>"

text \<open>
  The operator presses Ctrl-C during the sleep of line 127, and the reader of the
  standard output has gone by then: the print of the farewell (line 130) raises.
\<close>

definition cancelled_broken_pipe_cycle :: cycle where
  "cancelled_broken_pipe_cycle =
     cancelled_cycle\<lparr>handler_print_raises := Some (Exception ''[Errno 32] Broken pipe'')\<rparr>"

section \<open>Properties\<close>

subsection \<open>Rounding\<close>

lemma binade_eq:
  "e0 \<le> E \<Longrightarrow> E \<le> e0 + int k \<Longrightarrow> 2 powi E \<le> a \<Longrightarrow> a < 2 powi (E + 1) \<Longrightarrow> binade k e0 a = E"
proof (induction k arbitrary: e0)
  case 0
  then show ?case by simp
next
  case (Suc k)
  show ?case
  proof (cases "e0 + 1 \<le> E")
    case True
    have "(2::rat) powi (e0 + 1) \<le> 2 powi E"
      using True by (intro power_int_increasing) auto
    with Suc.prems have le: "2 powi (e0 + 1) \<le> a" by linarith
    have "binade k (e0 + 1) a = E"
      using True Suc.prems by (intro Suc.IH) auto
    with le show ?thesis by simp
  next
    case False
    with Suc.prems have "e0 = E" by linarith
    with Suc.prems show ?thesis by simp
  qed
qed

lemma exponent_eq:
  "- 1022 \<le> E \<Longrightarrow> E \<le> 1024 \<Longrightarrow> 2 powi E \<le> a \<Longrightarrow> a < 2 powi (E + 1) \<Longrightarrow> exponent a = E"
  unfolding exponent_def by (rule binade_eq) auto

lemma round_half_even_le: "x \<le> of_int m \<Longrightarrow> round_half_even x \<le> m"
proof -
  assume x: "x \<le> of_int m"
  have fl: "\<lfloor>x\<rfloor> \<le> m" using x by (simp add: floor_le_iff)
  show ?thesis
  proof (cases "x = of_int \<lfloor>x\<rfloor>")
    case True
    then have "x - of_int \<lfloor>x\<rfloor> = 0" by simp
    then show ?thesis using fl by (simp add: round_half_even_def Let_def)
  next
    case False
    then have "of_int \<lfloor>x\<rfloor> < x" using of_int_floor_le [of x] by linarith
    with x have "(of_int \<lfloor>x\<rfloor> :: rat) < of_int m" by linarith
    then have "\<lfloor>x\<rfloor> < m" by simp
    then show ?thesis by (auto simp: round_half_even_def Let_def)
  qed
qed

text \<open>The rounding of a number of the normal range, by its binade.\<close>

lemma round_double_normal:
  assumes "2 powi e \<le> q" "q < 2 powi (e + 1)" "- 1022 \<le> e" "e \<le> 1022"
  shows "round_double q = Fin (of_int (round_half_even (q / 2 powi (e - 52))) * 2 powi (e - 52))"
proof -
  have "(0::rat) < 2 powi e" by simp
  with assms(1) have pos: "0 < q" by linarith
  have ex: "exponent \<bar>q\<bar> = e" using assms pos by (intro exponent_eq) auto
  let ?u = "(2::rat) powi (e - 52)"
  have upos: "0 < ?u" by simp
  have "q / ?u < 2 powi (e + 1) / ?u" using assms(2) upos by (simp add: divide_strict_right_mono)
  also have "2 powi (e + 1) / ?u = (2::rat) powi 53"
    by (simp add: power_int_diff [symmetric])
  finally have "q / ?u \<le> of_int (2 ^ 53)" by simp
  then have n: "round_half_even (q / ?u) \<le> 2 ^ 53" by (rule round_half_even_le)
  have "of_int (round_half_even (q / ?u)) * ?u \<le> of_int (2 ^ 53) * ?u"
    using n upos by (intro mult_right_mono) (auto simp: of_int_le_iff simp del: of_int_power of_int_numeral)
  also have "of_int (2 ^ 53) * ?u = (2::rat) powi (e + 1)"
  proof -
    have "(2::rat) powi 53 * 2 powi (e - 52) = 2 powi (53 + (e - 52))"
      by (subst power_int_add) auto
    then show ?thesis by (simp add: add.commute)
  qed
  also have "\<dots> < 2 powi 1024" using assms(4) by (intro power_int_strict_increasing) auto
  finally have "\<not> 2 powi 1024 \<le> of_int (round_half_even (q / ?u)) * ?u" by simp
  then show ?thesis using pos ex by (simp add: round_double_def Let_def)
qed

lemma round_half_even_frac:
  assumes "0 < d"
  shows "round_half_even (of_int n / of_int d) =
     (let k = n div d; r = 2 * (n mod d)
      in if r < d then k else if d < r then k + 1 else if even k then k else k + 1)"
proof -
  have fl: "\<lfloor>(of_int n / of_int d :: rat)\<rfloor> = n div d"
    by (simp add: floor_divide_of_int_eq)
  have "(of_int n :: rat) = of_int (n div d) * of_int d + of_int (n mod d)"
    by (simp flip: of_int_mult of_int_add)
  then have "(of_int n / of_int d :: rat) =
      (of_int (n div d) * of_int d + of_int (n mod d)) / of_int d"
    by simp
  also have "\<dots> = of_int (n div d) + of_int (n mod d) / of_int d"
    using assms by (simp add: add_divide_distrib)
  finally have "(of_int n / of_int d :: rat) = of_int (n div d) + of_int (n mod d) / of_int d" .
  then have fr: "(of_int n / of_int d :: rat) - of_int (n div d) = of_int (n mod d) / of_int d"
    by simp
  have lt: "(of_int (n mod d) / of_int d :: rat) < 1 / 2 \<longleftrightarrow> 2 * (n mod d) < d"
  proof -
    have "(of_int (n mod d) / of_int d :: rat) < 1 / 2 \<longleftrightarrow> (of_int (2 * (n mod d)) :: rat) < of_int d"
      using assms by (simp add: field_simps)
    then show ?thesis by (simp only: of_int_less_iff)
  qed
  have gt: "(1 / 2 :: rat) < of_int (n mod d) / of_int d \<longleftrightarrow> d < 2 * (n mod d)"
  proof -
    have "(1 / 2 :: rat) < of_int (n mod d) / of_int d \<longleftrightarrow> (of_int d :: rat) < of_int (2 * (n mod d))"
      using assms by (simp add: field_simps)
    then show ?thesis by (simp only: of_int_less_iff)
  qed
  show ?thesis
    unfolding round_half_even_def Let_def fl fr lt gt ..
qed

lemma round_half_even_numeral:
  "round_half_even (numeral a / numeral b) =
     (let k = numeral a div numeral b :: int; r = 2 * (numeral a mod numeral b :: int)
      in if r < numeral b then k else if numeral b < r then k + 1
         else if even k then k else k + 1)"
  using round_half_even_frac [of "numeral b" "numeral a"] by simp

lemma round_half_even_of_int: "round_half_even (of_int n) = n"
  by (simp add: round_half_even_def)

lemma round_half_even_whole: "round_half_even (numeral a) = numeral a"
  using round_half_even_of_int [of "numeral a"] by simp

lemmas round_half_even_eval = round_half_even_numeral round_half_even_whole Let_def

subsection \<open>The float literals of the reward estimator\<close>

lemma literal_2_5: "round_double (5/2) = Fin (5/2)"
  by (subst round_double_normal [where e = 1]) (simp_all add: round_half_even_eval)

lemma literal_2_0: "round_double 2 = Fin 2"
  by (subst round_double_normal [where e = 1]) (simp_all add: round_half_even_eval)

lemma literal_1_8: "round_double (9/5) = Fin (8106479329266893/4503599627370496)"
  by (subst round_double_normal [where e = 0]) (simp_all add: round_half_even_eval)

lemma literal_1_5: "round_double (3/2) = Fin (3/2)"
  by (subst round_double_normal [where e = 0]) (simp_all add: round_half_even_eval)

lemma literal_1_4: "round_double (7/5) = Fin (3152519739159347/2251799813685248)"
  by (subst round_double_normal [where e = 0]) (simp_all add: round_half_even_eval)

lemma literal_1_2: "round_double (6/5) = Fin (5404319552844595/4503599627370496)"
  by (subst round_double_normal [where e = 0]) (simp_all add: round_half_even_eval)

lemma literal_1_0: "round_double 1 = Fin 1"
  by (subst round_double_normal [where e = 0]) (simp_all add: round_half_even_eval)

lemmas literals = literal_2_5 literal_2_0 literal_1_8 literal_1_5 literal_1_4 literal_1_2
  literal_1_0

text \<open>The products \<^verbatim>\<open>base_reward * multiplier\<close>, rounded as the multiplication rounds them.\<close>

lemma product_g4: "fmul (Fin (3/2)) (Fin (5/2)) = Fin (15/4)"
  unfolding fmul.simps
  by (subst round_double_normal [where e = 1]) (simp_all add: round_half_even_eval)

lemma product_g5: "fmul (Fin (3/2)) (Fin 2) = Fin 3"
  unfolding fmul.simps
  by (subst round_double_normal [where e = 1]) (simp_all add: round_half_even_eval)

lemma product_g3:
  "fmul (Fin (3/2)) (Fin (8106479329266893/4503599627370496)) =
     Fin (3039929748475085/1125899906842624)"
  unfolding fmul.simps
  by (subst round_double_normal [where e = 1]) (simp_all add: round_half_even_eval)

lemma product_power8: "fmul (Fin (3/2)) (Fin (3/2)) = Fin (9/4)"
  unfolding fmul.simps
  by (subst round_double_normal [where e = 1]) (simp_all add: round_half_even_eval)

lemma product_retro:
  "fmul (Fin (3/2)) (Fin (3152519739159347/2251799813685248)) =
     Fin (1182194902184755/562949953421312)"
  unfolding fmul.simps
  by (subst round_double_normal [where e = 1]) (simp_all add: round_half_even_eval)

lemma product_apple_silicon:
  "fmul (Fin (3/2)) (Fin (5404319552844595/4503599627370496)) =
     Fin (2026619832316723/1125899906842624)"
  unfolding fmul.simps
  by (subst round_double_normal [where e = 0]) (simp_all add: round_half_even_eval)

lemma product_modern: "fmul (Fin (3/2)) (Fin 1) = Fin (3/2)"
  unfolding fmul.simps
  by (subst round_double_normal [where e = 0]) (simp_all add: round_half_even_eval)

lemmas products = product_g4 product_g5 product_g3 product_power8 product_retro
  product_apple_silicon product_modern

subsection \<open>Reward estimator\<close>

lemma multipliers_values:
  "multipliers =
     [(''g4'', Fin (5/2)), (''g5'', Fin 2),
      (''g3'', Fin (8106479329266893/4503599627370496)),
      (''power8'', Fin (3/2)),
      (''retro'', Fin (3152519739159347/2251799813685248)),
      (''apple_silicon'', Fin (5404319552844595/4503599627370496)),
      (''modern'', Fin 1)]"
  by (simp add: multipliers_def literals)

lemma multiplier_range:
  "multiplier s \<in> {Fin (5/2), Fin 2, Fin (8106479329266893/4503599627370496), Fin (3/2),
     Fin (3152519739159347/2251799813685248), Fin (5404319552844595/4503599627370496), Fin 1}"
proof (cases "map_of multipliers (lower s)")
  case None
  then show ?thesis by (simp add: multiplier_def literal_1_0)
next
  case (Some m)
  then have "(lower s, m) \<in> set multipliers" by (rule map_of_SomeD)
  then have "m \<in> snd ` set multipliers" by force
  with Some show ?thesis by (auto simp: multiplier_def multipliers_values)
qed

lemma calculate_expected_reward_multiplier:
  "calculate_expected_reward s = fmul (Fin (3/2)) (multiplier s)"
  by (simp add: calculate_expected_reward_def multiplier_def literal_1_5)

lemma lower_char_idem: "lower_char (lower_char c) = lower_char c"
  by (auto simp: lower_char_def split: option.splits if_splits)

lemma lower_idem: "lower (lower s) = lower s"
  by (simp add: lower_def lower_char_idem)

lemma lower_examples:
  "lower ''G4'' = ''g4''" "lower ''g4'' = ''g4''" "lower ''xyz'' = ''xyz''"
  "lower ''modern'' = ''modern''" "lower ''G5'' = ''g5''" "lower ''g5'' = ''g5''"
  by (simp_all add: lower_def lower_char_def)

text \<open>
  Claim C2. The multiplier is looked up in the table of seven entries by the lowercase
  form of the architecture, and is 1.0 when that form is not a key; two strings with the
  same lowercase form, a string and its lowercase form among them, have the same
  multiplier; \<^verbatim>\<open>"G4"\<close> and \<^verbatim>\<open>"g4"\<close> have 2.5 and \<^verbatim>\<open>"xyz"\<close> has 1.0. A literal such as
  1.8 stands for the double that it denotes, \<open>round_double (9/5)\<close>.
\<close>

theorem multiplier_lookup:
  "(lower s = ''g4'' \<longrightarrow> multiplier s = Fin (5/2)) \<and>
   (lower s = ''g5'' \<longrightarrow> multiplier s = Fin 2) \<and>
   (lower s = ''g3'' \<longrightarrow> multiplier s = round_double (9/5)) \<and>
   (lower s = ''power8'' \<longrightarrow> multiplier s = Fin (3/2)) \<and>
   (lower s = ''retro'' \<longrightarrow> multiplier s = round_double (7/5)) \<and>
   (lower s = ''apple_silicon'' \<longrightarrow> multiplier s = round_double (6/5)) \<and>
   (lower s = ''modern'' \<longrightarrow> multiplier s = Fin 1) \<and>
   (lower s \<notin> {''g4'', ''g5'', ''g3'', ''power8'', ''retro'', ''apple_silicon'', ''modern''} \<longrightarrow>
      multiplier s = Fin 1) \<and>
   (lower s = lower t \<longrightarrow> multiplier s = multiplier t) \<and>
   multiplier (lower s) = multiplier s \<and>
   multiplier ''G4'' = Fin (5/2) \<and> multiplier ''g4'' = Fin (5/2) \<and>
   multiplier ''xyz'' = Fin 1"
proof -
  have known: "map_of multipliers k = Some v \<Longrightarrow> lower s = k \<Longrightarrow> multiplier s = v" for k v
    by (simp add: multiplier_def)
  have absent: "lower s \<notin> {''g4'', ''g5'', ''g3'', ''power8'', ''retro'', ''apple_silicon'', ''modern''}
      \<Longrightarrow> map_of multipliers (lower s) = None"
    by (simp add: multipliers_def)
  have same: "lower s = lower t \<Longrightarrow> multiplier s = multiplier t"
    by (simp add: multiplier_def)
  have idem: "multiplier (lower s) = multiplier s"
    by (simp add: multiplier_def lower_idem)
  have ex: "multiplier ''G4'' = Fin (5/2)" "multiplier ''g4'' = Fin (5/2)"
      "multiplier ''xyz'' = Fin 1"
    by (simp_all add: multiplier_def lower_examples multipliers_values literal_1_0)
  show ?thesis
    using known [of "''g4''"] known [of "''g5''"] known [of "''g3''"] known [of "''power8''"]
      known [of "''retro''"] known [of "''apple_silicon''"] known [of "''modern''"]
      absent same idem ex
    by (simp add: multipliers_def literals multiplier_def)
qed

theorem multiplier_lookup_witness:
  "lower ''G5'' = ''g5'' \<and> lower ''G5'' = lower ''g5'' \<and>
   multiplier ''G5'' = Fin 2 \<and> multiplier ''G5'' = multiplier ''g5''"
  using multiplier_lookup [of "''G5''" "''g5''"] by (simp add: lower_examples)

text \<open>
  Claim C3. The expected reward is the base reward 1.5 times the multiplier of the
  architecture, in floating-point multiplication; for \<^verbatim>\<open>"g4"\<close> it is 3.75.
\<close>

theorem expected_reward_is_product:
  "calculate_expected_reward s = fmul (round_double (3/2)) (multiplier s) \<and>
   calculate_expected_reward ''g4'' = Fin (15/4)"
proof -
  have "multiplier ''g4'' = Fin (5/2)"
    by (simp add: multiplier_def lower_examples multipliers_values)
  then show ?thesis
    by (simp del: fmul.simps add: calculate_expected_reward_multiplier literal_1_5 product_g4)
qed

text \<open>
  Claim C10. The expected reward of every architecture is a finite float between 1.5
  and 3.75; 1.5 is attained by \<^verbatim>\<open>"modern"\<close> and by an unknown architecture, 3.75 by
  \<^verbatim>\<open>"g4"\<close>.
\<close>

theorem expected_reward_bounds:
  "(\<exists>q. calculate_expected_reward s = Fin q \<and> 3/2 \<le> q \<and> q \<le> 15/4) \<and>
   calculate_expected_reward ''modern'' = Fin (3/2) \<and>
   calculate_expected_reward ''xyz'' = Fin (3/2) \<and>
   calculate_expected_reward ''g4'' = Fin (15/4)"
proof -
  let ?P = "\<lambda>m. \<exists>q. fmul (Fin (3/2)) m = Fin q \<and> 3/2 \<le> q \<and> q \<le> 15/4"
  have bounded: "x = Fin q \<Longrightarrow> 3/2 \<le> q \<Longrightarrow> q \<le> 15/4 \<Longrightarrow> \<exists>q. x = Fin q \<and> 3/2 \<le> q \<and> q \<le> 15/4"
    for x q by blast
  have 1: "?P (Fin (5/2))" by (rule bounded [OF product_g4]) simp_all
  have 2: "?P (Fin 2)" by (rule bounded [OF product_g5]) simp_all
  have 3: "?P (Fin (8106479329266893/4503599627370496))"
    by (rule bounded [OF product_g3]) simp_all
  have 4: "?P (Fin (3/2))" by (rule bounded [OF product_power8]) simp_all
  have 5: "?P (Fin (3152519739159347/2251799813685248))"
    by (rule bounded [OF product_retro]) simp_all
  have 6: "?P (Fin (5404319552844595/4503599627370496))"
    by (rule bounded [OF product_apple_silicon]) simp_all
  have 7: "?P (Fin 1)" by (rule bounded [OF product_modern]) simp_all
  have "?P (multiplier s)"
    using multiplier_range [of s] 1 2 3 4 5 6 7 by (elim insertE emptyE) (simp_all only:)
  then have range: "\<exists>q. calculate_expected_reward s = Fin q \<and> 3/2 \<le> q \<and> q \<le> 15/4"
    by (simp only: calculate_expected_reward_multiplier)
  have m: "multiplier ''modern'' = Fin 1" "multiplier ''xyz'' = Fin 1"
      "multiplier ''g4'' = Fin (5/2)"
    by (simp_all add: multiplier_def lower_examples multipliers_values literal_1_0)
  have "calculate_expected_reward ''modern'' = Fin (3/2)"
      "calculate_expected_reward ''xyz'' = Fin (3/2)"
      "calculate_expected_reward ''g4'' = Fin (15/4)"
    by (simp_all only: calculate_expected_reward_multiplier m products)
  with range show ?thesis by blast
qed

subsection \<open>Miner lookup\<close>

lemma find_miner_None_iff:
  "find_miner ms t = None \<longleftrightarrow>
     (\<forall>m \<in> set ms. miner m \<noteq> Some t \<and> miner_id m \<noteq> Some t)"
  by (induction ms) auto

lemma find_miner_Some_iff:
  "find_miner ms t = Some m \<longleftrightarrow>
     (\<exists>i<length ms. ms ! i = m \<and> (miner m = Some t \<or> miner_id m = Some t) \<and>
        (\<forall>j<i. miner (ms ! j) \<noteq> Some t \<and> miner_id (ms ! j) \<noteq> Some t))"
proof (induction ms)
  case Nil
  show ?case by simp
next
  case (Cons a ms)
  show ?case
  proof (cases "miner a = Some t \<or> miner_id a = Some t")
    case True
    have "(\<exists>i<length (a # ms). (a # ms) ! i = m \<and> (miner m = Some t \<or> miner_id m = Some t) \<and>
        (\<forall>j<i. miner ((a # ms) ! j) \<noteq> Some t \<and> miner_id ((a # ms) ! j) \<noteq> Some t)) \<longleftrightarrow> a = m"
    proof
      assume "\<exists>i<length (a # ms). (a # ms) ! i = m \<and> (miner m = Some t \<or> miner_id m = Some t) \<and>
        (\<forall>j<i. miner ((a # ms) ! j) \<noteq> Some t \<and> miner_id ((a # ms) ! j) \<noteq> Some t)"
      then obtain i where i: "(a # ms) ! i = m"
        "\<forall>j<i. miner ((a # ms) ! j) \<noteq> Some t \<and> miner_id ((a # ms) ! j) \<noteq> Some t"
        by blast
      have "i = 0"
      proof (rule ccontr)
        assume "i \<noteq> 0"
        then have "0 < i" by simp
        with i(2) have "miner ((a # ms) ! 0) \<noteq> Some t \<and> miner_id ((a # ms) ! 0) \<noteq> Some t"
          by blast
        with True show False by simp
      qed
      with i(1) show "a = m" by simp
    next
      assume "a = m"
      with True show "\<exists>i<length (a # ms). (a # ms) ! i = m \<and>
        (miner m = Some t \<or> miner_id m = Some t) \<and>
        (\<forall>j<i. miner ((a # ms) ! j) \<noteq> Some t \<and> miner_id ((a # ms) ! j) \<noteq> Some t)"
        by (intro exI[of _ 0]) simp
    qed
    with True show ?thesis by simp
  next
    case False
    have "(\<exists>i<length (a # ms). (a # ms) ! i = m \<and> (miner m = Some t \<or> miner_id m = Some t) \<and>
        (\<forall>j<i. miner ((a # ms) ! j) \<noteq> Some t \<and> miner_id ((a # ms) ! j) \<noteq> Some t)) \<longleftrightarrow>
      (\<exists>i<length ms. ms ! i = m \<and> (miner m = Some t \<or> miner_id m = Some t) \<and>
        (\<forall>j<i. miner (ms ! j) \<noteq> Some t \<and> miner_id (ms ! j) \<noteq> Some t))"
      (is "?L \<longleftrightarrow> ?R")
    proof
      assume ?L
      then obtain i where i: "i < length (a # ms)" "(a # ms) ! i = m"
        "miner m = Some t \<or> miner_id m = Some t"
        "\<forall>j<i. miner ((a # ms) ! j) \<noteq> Some t \<and> miner_id ((a # ms) ! j) \<noteq> Some t"
        by blast
      from i(2,3) False have "i \<noteq> 0" by (cases i) auto
      then obtain k where k: "i = Suc k" by (cases i) auto
      have "\<forall>j<k. miner (ms ! j) \<noteq> Some t \<and> miner_id (ms ! j) \<noteq> Some t"
      proof (intro allI impI)
        fix j assume "j < k"
        then have "Suc j < i" using k by simp
        with i(4) have "miner ((a # ms) ! Suc j) \<noteq> Some t \<and> miner_id ((a # ms) ! Suc j) \<noteq> Some t"
          by blast
        then show "miner (ms ! j) \<noteq> Some t \<and> miner_id (ms ! j) \<noteq> Some t" by simp
      qed
      with i k show ?R by (intro exI[of _ k]) simp
    next
      assume ?R
      then obtain k where k: "k < length ms" "ms ! k = m"
        "miner m = Some t \<or> miner_id m = Some t"
        "\<forall>j<k. miner (ms ! j) \<noteq> Some t \<and> miner_id (ms ! j) \<noteq> Some t"
        by blast
      have "\<forall>j<Suc k. miner ((a # ms) ! j) \<noteq> Some t \<and> miner_id ((a # ms) ! j) \<noteq> Some t"
      proof (intro allI impI)
        fix j assume j: "j < Suc k"
        show "miner ((a # ms) ! j) \<noteq> Some t \<and> miner_id ((a # ms) ! j) \<noteq> Some t"
        proof (cases j)
          case 0
          with False show ?thesis by simp
        next
          case (Suc j')
          with j k(4) show ?thesis by simp
        qed
      qed
      with k show ?L by (intro exI[of _ "Suc k"]) simp
    qed
    with False Cons.IH show ?thesis by simp
  qed
qed

text \<open>
  Claim C6. For every fetched miner list and every watched id, a list element matches when
  its \<^verbatim>\<open>miner\<close> key equals the id or its \<^verbatim>\<open>miner_id\<close> key equals the id; the lookup
  selects the first matching element in list order, and nothing when no element matches.
  An element that carries both keys with different values matches either value.
\<close>

theorem find_miner_first_match:
  "(find_miner ms t = Some m \<longleftrightarrow>
     (\<exists>i<length ms. ms ! i = m \<and> (miner m = Some t \<or> miner_id m = Some t) \<and>
        (\<forall>j<i. miner (ms ! j) \<noteq> Some t \<and> miner_id (ms ! j) \<noteq> Some t))) \<and>
   (find_miner ms t = None \<longleftrightarrow>
     (\<forall>m \<in> set ms. miner m \<noteq> Some t \<and> miner_id m \<noteq> Some t))"
  using find_miner_Some_iff find_miner_None_iff by blast

theorem find_miner_first_match_witness:
  "find_miner
     [\<lparr>miner = Some ''b'', miner_id = None, device_arch = None, last_attestation_time = None\<rparr>,
      \<lparr>miner = Some ''a'', miner_id = Some ''w'', device_arch = Some ''g4'', last_attestation_time = None\<rparr>,
      \<lparr>miner = Some ''w'', miner_id = Some ''c'', device_arch = Some ''g5'', last_attestation_time = None\<rparr>] ''w''
   = Some \<lparr>miner = Some ''a'', miner_id = Some ''w'', device_arch = Some ''g4'', last_attestation_time = None\<rparr> \<and>
   (\<exists>i<length
     [\<lparr>miner = Some ''b'', miner_id = None, device_arch = None, last_attestation_time = None\<rparr>,
      \<lparr>miner = Some ''a'', miner_id = Some ''w'', device_arch = Some ''g4'', last_attestation_time = None\<rparr>,
      \<lparr>miner = Some ''w'', miner_id = Some ''c'', device_arch = Some ''g5'', last_attestation_time = None\<rparr>].
     [\<lparr>miner = Some ''b'', miner_id = None, device_arch = None, last_attestation_time = None\<rparr>,
      \<lparr>miner = Some ''a'', miner_id = Some ''w'', device_arch = Some ''g4'', last_attestation_time = None\<rparr>,
      \<lparr>miner = Some ''w'', miner_id = Some ''c'', device_arch = Some ''g5'', last_attestation_time = None\<rparr>] ! i
     = \<lparr>miner = Some ''a'', miner_id = Some ''w'', device_arch = Some ''g4'', last_attestation_time = None\<rparr>)"
proof -
  let ?ms = "[\<lparr>miner = Some ''b'', miner_id = None, device_arch = None, last_attestation_time = None\<rparr>,
      \<lparr>miner = Some ''a'', miner_id = Some ''w'', device_arch = Some ''g4'', last_attestation_time = None\<rparr>,
      \<lparr>miner = Some ''w'', miner_id = Some ''c'', device_arch = Some ''g5'', last_attestation_time = None\<rparr>]"
  let ?m = "\<lparr>miner = Some ''a'', miner_id = Some ''w'', device_arch = Some ''g4'', last_attestation_time = None\<rparr>"
  have r: "find_miner ?ms ''w'' = Some ?m" by simp
  have "find_miner ?ms ''w'' = Some ?m \<longleftrightarrow>
     (\<exists>i<length ?ms. ?ms ! i = ?m \<and> (miner ?m = Some ''w'' \<or> miner_id ?m = Some ''w'') \<and>
        (\<forall>j<i. miner (?ms ! j) \<noteq> Some ''w'' \<and> miner_id (?ms ! j) \<noteq> Some ''w''))"
    using find_miner_first_match [of ?ms "''w''" ?m] by (rule conjunct1)
  from this r have "\<exists>i<length ?ms. ?ms ! i = ?m \<and> (miner ?m = Some ''w'' \<or> miner_id ?m = Some ''w'') \<and>
        (\<forall>j<i. miner (?ms ! j) \<noteq> Some ''w'' \<and> miner_id (?ms ! j) \<noteq> Some ''w'')"
    by (rule iffD1)
  then have "\<exists>i<length ?ms. ?ms ! i = ?m" by blast
  with r show ?thesis by (intro conjI)
qed

subsection \<open>Network summary\<close>

lemma sum_update:
  "sum_list (map snd (AList.update k ((case map_of al k of Some n \<Rightarrow> n | None \<Rightarrow> 0) + 1) al)) =
     sum_list (map snd al) + (1::int)"
  by (induction al) auto

lemma sum_group_by_arch:
  "sum_list (map snd (group_by_arch acc ms)) = sum_list (map snd acc) + int (length ms)"
  by (induction ms arbitrary: acc) (simp_all add: Let_def sum_update)

lemma sum_sort_key: "sum_list (map snd (sort_key f xs)) = sum_list (map snd (xs :: (string \<times> int) list))"
proof -
  have "mset (map snd (sort_key f xs)) = mset (map snd xs)" by simp
  then show ?thesis by (metis sum_mset_sum_list)
qed

lemma sorted_descending:
  "sorted_wrt (\<lambda>a b. snd b \<le> snd a) (sort_key (\<lambda>x. - snd x) (xs :: (string \<times> int) list))"
proof -
  have "sorted (map (\<lambda>x. - snd x) (sort_key (\<lambda>x. - snd x) xs))" by (rule sorted_sort_key)
  then show ?thesis by (simp add: sorted_map)
qed

text \<open>
  Claim C7. For every fetched miner list the one-shot summary shows a miner count equal
  to the length of the list, and the counts of its hardware histogram sum to that length.
\<close>

theorem summary_counts:
  "\<exists>out. network_summary (Inr health) (Inr epoch) (Inr miners) = Inr out \<and>
     miner_count out = length miners \<and>
     sum_list (map snd (distribution out)) = int (length miners) \<and>
     sum_list (map snd (group_by_arch [] miners)) = int (length miners)"
  by (simp add: network_summary_def Let_def sum_sort_key sum_group_by_arch)

text \<open>
  Claim C8. The histogram of the summary lists the groups in non-increasing order of
  count. It holds the groups that the grouping produced, and groups of equal count keep
  the order in which the grouping produced them.
\<close>

theorem summary_sorted_descending:
  "\<exists>out. network_summary (Inr health) (Inr epoch) (Inr miners) = Inr out \<and>
     sorted_wrt (\<lambda>a b. snd b \<le> snd a) (distribution out) \<and>
     mset (distribution out) = mset (group_by_arch [] miners) \<and>
     (\<forall>n. filter (\<lambda>g. snd g = n) (distribution out) =
          filter (\<lambda>g. snd g = n) (group_by_arch [] miners))"
proof -
  have "filter (\<lambda>g. snd g = n) (sort_key (\<lambda>x. - snd x) xs) = filter (\<lambda>g. snd g = n) xs"
    for n and xs :: "(string \<times> int) list"
    using sort_key_stable [of "\<lambda>x. - snd x" "- n" xs] by simp
  then show ?thesis
    by (simp add: network_summary_def Let_def sorted_descending)
qed

subsection \<open>Watch loop\<close>

text \<open>
  On a string without continuation bytes, as every ASCII string is, the slice is the
  list prefix; a character of two bytes counts once.
\<close>

lemma take_chars_ascii:
  "\<forall>c\<in>set s. \<not> is_continuation c \<Longrightarrow> take_chars n s = take n s"
  by (induction s arbitrary: n) (auto simp: take_Cons split: nat.splits)

lemma take_chars_example:
  "take_chars 1 [CHR 0xC3, CHR 0xA9, CHR ''x''] = [CHR 0xC3, CHR 0xA9]"
  "take 1 [CHR 0xC3, CHR 0xA9, CHR ''x''] = [CHR 0xC3]"
  by simp_all

lemma NewEpoch_in_update_and_sleep:
  "NewEpoch r \<in> set (fst (update_and_sleep i c b cur out)) \<longleftrightarrow> NewEpoch r \<in> set out"
  by (auto simp: update_and_sleep_def Let_def split: option.splits)

lemma fst_iteration_NewEpoch:
  "NewEpoch r \<in> set (fst (iteration t i c s)) \<longleftrightarrow> NewEpoch r \<in> set (fst (try_body t i c s))"
  by (auto simp: iteration_def split: prod.splits option.splits exn.splits)

lemma try_body_NewEpoch:
  "NewEpoch r \<in> set (fst (try_body t i c s)) \<longleftrightarrow>
     (\<exists>epoch balance miners.
        epoch_result c = Inr epoch \<and> get_miner_balance (balance_result c) = Inr balance \<and>
        miners_result c = Inr miners \<and> display_raises c = None \<and> alert_raises c = None \<and>
        (case current_epoch epoch of Some n \<Rightarrow> n | None \<Rightarrow> 0) > last_epoch s \<and>
        last_epoch s > 0 \<and> r = fsub balance (last_balance s))"
  by (auto simp: try_body_def Let_def display_def NewEpoch_in_update_and_sleep
      split: sum.splits option.splits)

text \<open>
  Claim C1. The new-epoch alert is printed on an iteration exactly when the body of the
  \<^verbatim>\<open>try\<close> statement gets to the check (the three requests and the display return),
  the fetched \<^verbatim>\<open>current_epoch\<close> is greater than \<^verbatim>\<open>last_epoch\<close>, \<^verbatim>\<open>last_epoch\<close> is greater
  than 0, and the print returns. With \<^verbatim>\<open>last_epoch\<close> equal to 0 it is never printed, and
  so never on the first iteration of the loop.
\<close>

theorem new_epoch_alert_iff:
  "((\<exists>r. NewEpoch r \<in> set (fst (iteration t i c s))) \<longleftrightarrow>
      (\<exists>epoch balance miners.
         epoch_result c = Inr epoch \<and> get_miner_balance (balance_result c) = Inr balance \<and>
         miners_result c = Inr miners \<and> display_raises c = None \<and> alert_raises c = None \<and>
         (case current_epoch epoch of Some n \<Rightarrow> n | None \<Rightarrow> 0) > last_epoch s \<and>
         last_epoch s > 0)) \<and>
   (\<forall>r. NewEpoch r \<notin> set (fst (iteration t i c (s\<lparr>last_epoch := 0\<rparr>)))) \<and>
   (\<forall>r. NewEpoch r \<notin> set (fst (watch_miner t i [c])))"
proof -
  have a: "(\<exists>r. NewEpoch r \<in> set (fst (iteration t i c s))) \<longleftrightarrow>
      (\<exists>epoch balance miners.
         epoch_result c = Inr epoch \<and> get_miner_balance (balance_result c) = Inr balance \<and>
         miners_result c = Inr miners \<and> display_raises c = None \<and> alert_raises c = None \<and>
         (case current_epoch epoch of Some n \<Rightarrow> n | None \<Rightarrow> 0) > last_epoch s \<and>
         last_epoch s > 0)"
    unfolding fst_iteration_NewEpoch try_body_NewEpoch by blast
  have b: "NewEpoch r \<notin> set (fst (iteration t i c s'))" if "last_epoch s' = 0" for r s'
    unfolding fst_iteration_NewEpoch try_body_NewEpoch using that by simp
  have "fst (watch_miner t i [c]) =
      Watching t i # fst (iteration t i c \<lparr>last_balance = Fin 0, last_epoch = 0\<rparr>)"
    by (simp add: watch_miner_def split: prod.splits outcome.splits)
  with b [of "\<lparr>last_balance = Fin 0, last_epoch = 0\<rparr>"] b [of "s\<lparr>last_epoch := 0\<rparr>"] a
  show ?thesis by simp
qed

subsection \<open>Subtraction of floats\<close>

lemma binade_ge: "e0 \<le> binade k e0 a"
proof (induction k arbitrary: e0)
  case 0
  show ?case by simp
next
  case (Suc k)
  have "e0 + 1 \<le> binade k (e0 + 1) a" by (rule Suc.IH)
  then show ?case by simp
qed

lemma binade_le: "e0 < binade k e0 a \<Longrightarrow> 2 powi (binade k e0 a) \<le> a"
proof (induction k arbitrary: e0)
  case 0
  then show ?case by simp
next
  case (Suc k)
  show ?case
  proof (cases "2 powi (e0 + 1) \<le> a")
    case True
    show ?thesis
    proof (cases "e0 + 1 < binade k (e0 + 1) a")
      case True
      then have "2 powi (binade k (e0 + 1) a) \<le> a" by (rule Suc.IH)
      with \<open>2 powi (e0 + 1) \<le> a\<close> show ?thesis by simp
    next
      case False
      with binade_ge [of "e0 + 1" k a] have "binade k (e0 + 1) a = e0 + 1" by linarith
      with True show ?thesis by simp
    qed
  next
    case False
    with Suc.prems show ?thesis by simp
  qed
qed

lemma exponent_ge: "- 1022 \<le> exponent a"
  unfolding exponent_def by (rule binade_ge)

text \<open>The spacing of the doubles at \<open>a\<close> is at most \<open>a\<close>, from the least subnormal on.\<close>

lemma spacing_le:
  assumes "2 powi (- 1074) \<le> a"
  shows "2 powi (exponent a - 52) \<le> a"
proof (cases "exponent a = - 1022")
  case True
  with assms show ?thesis by simp
next
  case False
  with exponent_ge [of a] have "- 1022 < exponent a" by linarith
  then have "2 powi (exponent a) \<le> a"
    unfolding exponent_def by (rule binade_le)
  moreover have "(2::rat) powi (exponent a - 52) \<le> 2 powi (exponent a)"
    by (intro power_int_increasing) auto
  ultimately show ?thesis by linarith
qed

lemma round_half_even_ge: "of_int m \<le> x \<Longrightarrow> m \<le> round_half_even x"
proof -
  assume "of_int m \<le> x"
  then have "m \<le> \<lfloor>x\<rfloor>" by (simp add: le_floor_iff)
  then show ?thesis by (auto simp: round_half_even_def Let_def)
qed

lemma round_double_negative:
  assumes "x \<le> - (2 powi (- 1074))"
  shows "flt (round_double x) (Fin 0)"
proof -
  have p: "(0::rat) < 2 powi (- 1074)" by simp
  with assms have neg: "x < 0" by linarith
  let ?a = "\<bar>x\<bar>"
  let ?u = "(2::rat) powi (exponent ?a - 52)"
  have a: "2 powi (- 1074) \<le> ?a" using assms neg by linarith
  have upos: "0 < ?u" by simp
  have "?u \<le> ?a" using a by (rule spacing_le)
  then have "of_int 1 \<le> ?a / ?u" using upos by (simp add: le_divide_eq)
  then have "1 \<le> round_half_even (?a / ?u)" by (rule round_half_even_ge)
  then have "(0::rat) < of_int (round_half_even (?a / ?u))" by simp
  then have r: "0 < of_int (round_half_even (?a / ?u)) * ?u"
    using upos by (rule mult_pos_pos)
  show ?thesis
    using neg r by (simp add: round_double_def Let_def)
qed

text \<open>Every finite double is a multiple of the least subnormal.\<close>

lemma double_on_grid:
  assumes "round_double q = Fin q"
  shows "\<exists>k::int. q = of_int k * 2 powi (- 1074)"
proof (cases "q = 0")
  case True
  then have "q = of_int 0 * 2 powi (- 1074)" by simp
  then show ?thesis by blast
next
  case False
  define e where "e = exponent \<bar>q\<bar>"
  define n where "n = round_half_even (\<bar>q\<bar> / 2 powi (e - 52))"
  define G where "G = (2::rat) powi (- 1074)"
  define P where "P = (2::int) ^ nat (e + 1022)"
  define sg where "sg = (if 0 < q then 1 else - 1 :: int)"
  from assms False have Q: "q = sgn q * (of_int n * 2 powi (e - 52))"
    by (simp add: round_double_def Let_def e_def n_def split: if_splits)
  have "(2::rat) powi (e - 52) = 2 powi (e + 1022) * 2 powi (- 1074)"
    by (subst power_int_add [symmetric]) auto
  moreover have "(2::rat) powi (e + 1022) = of_int P"
    using exponent_ge [of "\<bar>q\<bar>"] by (simp add: power_int_def P_def e_def)
  ultimately have U: "(2::rat) powi (e - 52) = of_int P * G"
    by (simp only: G_def)
  have S: "sgn q = of_int sg"
    using False by (simp add: sgn_if sg_def)
  have "q = of_int sg * (of_int n * (of_int P * G))"
    by (subst Q) (simp only: U S)
  then have "q = of_int (sg * n * P) * G"
    by (simp only: of_int_mult mult.assoc)
  then show ?thesis unfolding G_def by blast
qed

lemma fsub_negative:
  assumes "is_float64 x" "is_float64 y" "flt x y"
  shows "flt (fsub x y) (Fin 0)"
proof (cases x)
  case (Fin a)
  show ?thesis
  proof (cases y)
    case (Fin b)
    with \<open>x = Fin a\<close> assms have ab: "a < b" "round_double a = Fin a" "round_double b = Fin b"
      by simp_all
    obtain k l :: int where k: "a = of_int k * 2 powi (- 1074)" and l: "b = of_int l * 2 powi (- 1074)"
      using double_on_grid [OF ab(2)] double_on_grid [OF ab(3)] by blast
    have p: "(0::rat) < 2 powi (- 1074)" by simp
    from ab(1) k l p have "(of_int k :: rat) < of_int l" by (simp add: mult_less_cancel_right)
    then have "k - l \<le> - 1" by simp
    then have "(of_int (k - l) :: rat) \<le> of_int (- 1)" by (simp only: of_int_le_iff)
    then have "of_int (k - l) * 2 powi (- 1074) \<le> (of_int (- 1) :: rat) * 2 powi (- 1074)"
      using p by (intro mult_right_mono) auto
    then have "a - b \<le> - (2 powi (- 1074))"
      using k l by (simp add: algebra_simps)
    then have "flt (round_double (a - b)) (Fin 0)" by (rule round_double_negative)
    with Fin \<open>x = Fin a\<close> show ?thesis by simp
  qed (use Fin assms in simp_all)
qed (use assms in \<open>cases y; simp\<close>)+

subsection \<open>The reward of the alert\<close>

theorem new_epoch_alert_iff_witness:
  "(\<exists>r. NewEpoch r \<in> set (fst (iteration ''m'' 60 example_cycle
       \<lparr>last_balance = Fin 2, last_epoch = 3\<rparr>))) \<and>
   (\<forall>r. NewEpoch r \<notin> set (fst (watch_miner ''m'' 60 [example_cycle])))"
proof -
  have "\<exists>epoch balance miners.
         epoch_result example_cycle = Inr epoch \<and>
         get_miner_balance (balance_result example_cycle) = Inr balance \<and>
         miners_result example_cycle = Inr miners \<and> display_raises example_cycle = None \<and>
         alert_raises example_cycle = None \<and>
         (case current_epoch epoch of Some n \<Rightarrow> n | None \<Rightarrow> 0)
            > last_epoch \<lparr>last_balance = Fin 2, last_epoch = 3\<rparr> \<and>
         last_epoch \<lparr>last_balance = Fin 2, last_epoch = 3\<rparr> > 0"
    by (simp add: example_cycle_def get_miner_balance_def)
  then show ?thesis
    using new_epoch_alert_iff [of "''m''" 60 example_cycle "\<lparr>last_balance = Fin 2, last_epoch = 3\<rparr>"]
    by blast
qed

lemma whole_doubles: "is_float64 (Fin 5)" "is_float64 (Fin 7)"
  unfolding is_float64.simps
  by (subst round_double_normal [where e = 2]; simp add: round_half_even_eval)+

text \<open>
  Claim C9. When the alert is printed, the reward that it shows is the float difference
  \<^verbatim>\<open>balance - last_balance\<close> of the fetched balance and the balance of the previous
  iteration; nothing clamps it, and it is negative when the balance has decreased.
\<close>

theorem alert_reward_is_difference:
  "(NewEpoch r \<in> set (fst (iteration t i c s)) \<longrightarrow>
      (\<exists>balance. get_miner_balance (balance_result c) = Inr balance \<and>
         r = fsub balance (last_balance s))) \<and>
   (NewEpoch r \<in> set (fst (iteration t i c s)) \<and>
    get_miner_balance (balance_result c) = Inr balance \<and>
    is_float64 balance \<and> is_float64 (last_balance s) \<and> flt balance (last_balance s) \<longrightarrow>
      flt r (Fin 0))"
proof -
  have a: "NewEpoch r \<in> set (fst (iteration t i c s)) \<Longrightarrow>
      \<exists>balance. get_miner_balance (balance_result c) = Inr balance \<and>
         r = fsub balance (last_balance s)"
    unfolding fst_iteration_NewEpoch try_body_NewEpoch by blast
  have "flt r (Fin 0)"
    if "NewEpoch r \<in> set (fst (iteration t i c s))"
      "get_miner_balance (balance_result c) = Inr balance"
      "is_float64 balance" "is_float64 (last_balance s)" "flt balance (last_balance s)"
  proof -
    from a [OF that(1)] that(2) have "r = fsub balance (last_balance s)" by simp
    with fsub_negative [OF that(3,4,5)] show ?thesis by simp
  qed
  with a show ?thesis by blast
qed

theorem alert_reward_is_difference_witness:
  "NewEpoch (fsub (Fin 5) (Fin 7)) \<in> set (fst (iteration ''m'' 60 example_cycle
       \<lparr>last_balance = Fin 7, last_epoch = 3\<rparr>)) \<and>
   flt (fsub (Fin 5) (Fin 7)) (Fin 0)"
proof -
  let ?s = "\<lparr>last_balance = Fin 7, last_epoch = 3\<rparr>"
  have b: "get_miner_balance (balance_result example_cycle) = Inr (Fin 5)"
    by (simp add: example_cycle_def get_miner_balance_def)
  have m: "NewEpoch (fsub (Fin 5) (Fin 7)) \<in> set (fst (iteration ''m'' 60 example_cycle ?s))"
    unfolding fst_iteration_NewEpoch try_body_NewEpoch
    by (simp del: fsub.simps add: example_cycle_def get_miner_balance_def)
  have "is_float64 (Fin 5)" "is_float64 (last_balance ?s)" "flt (Fin 5) (last_balance ?s)"
    using whole_doubles by simp_all
  with m b alert_reward_is_difference [of "fsub (Fin 5) (Fin 7)" "''m''" 60 example_cycle ?s "Fin 5"]
  show ?thesis by blast
qed

subsection \<open>Session state\<close>

lemma try_body_reached:
  assumes "epoch_result c = Inr epoch" "get_miner_balance (balance_result c) = Inr balance"
    "miners_result c = Inr miners" "display_raises c = None"
    "(case current_epoch epoch of Some n \<Rightarrow> n | None \<Rightarrow> 0) > last_epoch s \<and> last_epoch s > 0
       \<longrightarrow> alert_raises c = None"
  shows "fst (snd (try_body t i c s)) =
     \<lparr>last_balance = balance,
      last_epoch = (case current_epoch epoch of Some n \<Rightarrow> n | None \<Rightarrow> 0)\<rparr>"
  using assms
  by (auto simp: try_body_def Let_def update_and_sleep_def split: option.splits)

lemma try_body_not_reached:
  assumes "(\<exists>e. epoch_result c = Inl e) \<or> (\<exists>e. get_miner_balance (balance_result c) = Inl e) \<or>
    (\<exists>e. miners_result c = Inl e) \<or> (\<exists>e. display_raises c = Some e) \<or>
    (\<exists>epoch e. epoch_result c = Inr epoch \<and>
       (case current_epoch epoch of Some n \<Rightarrow> n | None \<Rightarrow> 0) > last_epoch s \<and> last_epoch s > 0 \<and>
       alert_raises c = Some e)"
  shows "fst (snd (try_body t i c s)) = s"
  using assms
  by (auto simp: try_body_def Let_def update_and_sleep_def split: option.splits sum.splits)

lemma iteration_Continue:
  "iteration t i c s = (out, Continue s') \<Longrightarrow> s' = fst (snd (try_body t i c s))"
  by (auto simp: iteration_def split: prod.splits option.splits exn.splits)

text \<open>
  Claim C5, as the code has it. On an iteration whose \<^verbatim>\<open>try\<close> body gets to lines 124--125
  (the requests, the display and, when the alert fires, its print return), the session
  is overwritten with the fetched balance and \<^verbatim>\<open>current_epoch\<close>, also when the sleep that
  follows raises and the exception is caught. On an iteration that raises before these
  lines the session is left as it was.
\<close>

theorem session_overwritten:
  "(epoch_result c = Inr epoch \<and> get_miner_balance (balance_result c) = Inr balance \<and>
    miners_result c = Inr miners \<and> display_raises c = None \<and>
    ((case current_epoch epoch of Some n \<Rightarrow> n | None \<Rightarrow> 0) > last_epoch s \<and> last_epoch s > 0
       \<longrightarrow> alert_raises c = None) \<and>
    iteration t i c s = (out, Continue s') \<longrightarrow>
      s' = \<lparr>last_balance = balance,
            last_epoch = (case current_epoch epoch of Some n \<Rightarrow> n | None \<Rightarrow> 0)\<rparr>) \<and>
   (((\<exists>e. epoch_result c = Inl e) \<or> (\<exists>e. get_miner_balance (balance_result c) = Inl e) \<or>
     (\<exists>e. miners_result c = Inl e) \<or> (\<exists>e. display_raises c = Some e) \<or>
     (\<exists>epoch e. epoch_result c = Inr epoch \<and>
        (case current_epoch epoch of Some n \<Rightarrow> n | None \<Rightarrow> 0) > last_epoch s \<and>
        last_epoch s > 0 \<and> alert_raises c = Some e)) \<and>
    iteration t i c s = (out, Continue s') \<longrightarrow> s' = s)"
  using try_body_reached [of c epoch balance miners s t i]
    try_body_not_reached [of c s t i] iteration_Continue [of t i c s out s']
  by blast

theorem session_overwritten_witness:
  "iteration ''m'' 60 (example_cycle\<lparr>sleep_raises := Some (Exception ''interrupted'')\<rparr>)
       \<lparr>last_balance = Fin 1, last_epoch = 0\<rparr> =
     ([Snapshot ''m'' (Fin 5) 4 None, ErrorMsg ''interrupted'', Slept 60],
      Continue \<lparr>last_balance = Fin 5, last_epoch = 4\<rparr>) \<and>
   iteration ''m'' 60 failing_cycle \<lparr>last_balance = Fin 1, last_epoch = 3\<rparr> =
     ([ErrorMsg ''connection refused'', Slept 60],
      Continue \<lparr>last_balance = Fin 1, last_epoch = 3\<rparr>)"
proof -
  let ?c = "example_cycle\<lparr>sleep_raises := Some (Exception ''interrupted'')\<rparr>"
  let ?s = "\<lparr>last_balance = Fin 1, last_epoch = 0\<rparr>"
  let ?s3 = "\<lparr>last_balance = Fin 1, last_epoch = 3\<rparr>"
  have "\<exists>out s'. iteration ''m'' 60 ?c ?s = (out, Continue s') \<and>
      out = [Snapshot ''m'' (Fin 5) 4 None, ErrorMsg ''interrupted'', Slept 60]"
    by (simp add: iteration_def try_body_def update_and_sleep_def sleep_def display_def
        example_cycle_def get_miner_balance_def)
  then obtain s' where run: "iteration ''m'' 60 ?c ?s =
      ([Snapshot ''m'' (Fin 5) 4 None, ErrorMsg ''interrupted'', Slept 60], Continue s')"
    by blast
  have "s' = \<lparr>last_balance = Fin 5,
       last_epoch = (case current_epoch \<lparr>current_epoch = Some 4\<rparr> of Some n \<Rightarrow> n | None \<Rightarrow> 0)\<rparr>"
    using run session_overwritten [of ?c "\<lparr>current_epoch = Some 4\<rparr>" "Fin 5" "[]" ?s "''m''" 60
        "[Snapshot ''m'' (Fin 5) 4 None, ErrorMsg ''interrupted'', Slept 60]" s']
    by (simp add: example_cycle_def get_miner_balance_def)
  with run have a: "iteration ''m'' 60 ?c ?s =
      ([Snapshot ''m'' (Fin 5) 4 None, ErrorMsg ''interrupted'', Slept 60],
       Continue \<lparr>last_balance = Fin 5, last_epoch = 4\<rparr>)"
    by simp
  have "\<exists>out s'. iteration ''m'' 60 failing_cycle ?s3 = (out, Continue s') \<and>
      out = [ErrorMsg ''connection refused'', Slept 60]"
    by (simp add: iteration_def try_body_def sleep_def failing_cycle_def get_miner_balance_def)
  then obtain s'' where run2: "iteration ''m'' 60 failing_cycle ?s3 =
      ([ErrorMsg ''connection refused'', Slept 60], Continue s'')"
    by blast
  have "\<exists>e. miners_result failing_cycle = Inl e" by (simp add: failing_cycle_def)
  with run2 have "s'' = ?s3"
    using session_overwritten [of failing_cycle _ _ _ ?s3 "''m''" 60
        "[ErrorMsg ''connection refused'', Slept 60]" s''] by blast
  with run2 a show ?thesis by simp
qed

text \<open>
  The claim as it is stated fails: epoch 7 and balance 5.0 are fetched, the third request
  raises, the exception is caught, and the session still holds the old values.
\<close>

theorem session_overwritten_counterexample:
  "epoch_result failing_cycle = Inr \<lparr>current_epoch = Some 7\<rparr> \<and>
   get_miner_balance (balance_result failing_cycle) = Inr (Fin 5) \<and>
   iteration ''m'' 60 failing_cycle \<lparr>last_balance = Fin 1, last_epoch = 3\<rparr> =
     ([ErrorMsg ''connection refused'', Slept 60],
      Continue \<lparr>last_balance = Fin 1, last_epoch = 3\<rparr>) \<and>
   snd (iteration ''m'' 60 failing_cycle \<lparr>last_balance = Fin 1, last_epoch = 3\<rparr>) \<noteq>
     Continue \<lparr>last_balance = Fin 5, last_epoch = 7\<rparr>"
  by (simp add: iteration_def try_body_def sleep_def failing_cycle_def get_miner_balance_def)

subsection \<open>Exception handling of the loop\<close>

text \<open>Where the body of the \<^verbatim>\<open>try\<close> statement raises: at each call that can raise.\<close>

lemma try_body_raises:
  "epoch_result c = Inl e \<Longrightarrow> snd (snd (try_body t i c s)) = Some e"
  "epoch_result c = Inr epoch \<Longrightarrow> get_miner_balance (balance_result c) = Inl e \<Longrightarrow>
     snd (snd (try_body t i c s)) = Some e"
  "epoch_result c = Inr epoch \<Longrightarrow> get_miner_balance (balance_result c) = Inr balance \<Longrightarrow>
     miners_result c = Inl e \<Longrightarrow> snd (snd (try_body t i c s)) = Some e"
  "epoch_result c = Inr epoch \<Longrightarrow> get_miner_balance (balance_result c) = Inr balance \<Longrightarrow>
     miners_result c = Inr miners \<Longrightarrow> display_raises c = Some e \<Longrightarrow>
     snd (snd (try_body t i c s)) = Some e"
  "epoch_result c = Inr epoch \<Longrightarrow> get_miner_balance (balance_result c) = Inr balance \<Longrightarrow>
     miners_result c = Inr miners \<Longrightarrow> display_raises c = None \<Longrightarrow>
     (case current_epoch epoch of Some n \<Rightarrow> n | None \<Rightarrow> 0) > last_epoch s \<and> last_epoch s > 0 \<Longrightarrow>
     alert_raises c = Some e \<Longrightarrow> snd (snd (try_body t i c s)) = Some e"
  "epoch_result c = Inr epoch \<Longrightarrow> get_miner_balance (balance_result c) = Inr balance \<Longrightarrow>
     miners_result c = Inr miners \<Longrightarrow> display_raises c = None \<Longrightarrow>
     ((case current_epoch epoch of Some n \<Rightarrow> n | None \<Rightarrow> 0) > last_epoch s \<and> last_epoch s > 0
        \<longrightarrow> alert_raises c = None) \<Longrightarrow>
     sleep i (sleep_raises c) = Some e \<Longrightarrow> snd (snd (try_body t i c s)) = Some e"
  by (auto simp: try_body_def Let_def update_and_sleep_def split: option.splits)

lemma iteration_interrupt:
  assumes "snd (snd (try_body t i c s)) = Some KeyboardInterrupt" "handler_print_raises c = None"
  shows "iteration t i c s = (fst (try_body t i c s) @ [Farewell], Break)"
  using assms by (cases "try_body t i c s") (auto simp: iteration_def)

lemma iteration_error:
  assumes "snd (snd (try_body t i c s)) = Some (Exception msg)" "handler_print_raises c = None"
    "sleep i (handler_sleep_raises c) = None"
  shows "iteration t i c s =
     (fst (try_body t i c s) @ [ErrorMsg msg, Slept i], Continue (fst (snd (try_body t i c s))))"
  using assms by (cases "try_body t i c s") (auto simp: iteration_def)

lemma iteration_error_printed:
  assumes "snd (snd (try_body t i c s)) = Some (Exception msg)" "handler_print_raises c = None"
  shows "prefix (fst (try_body t i c s) @ [ErrorMsg msg]) (fst (iteration t i c s))"
  using assms
  by (cases "try_body t i c s") (auto simp: iteration_def split: option.splits)

lemma fst_watch_loop_prefix: "prefix (fst (iteration t i c s)) (fst (watch_loop t i s (c # cs)))"
  by (auto split: prod.splits outcome.splits)

text \<open>
  Claim C4, as the code has it. The handlers' own print and sleep are outside the
  \<^verbatim>\<open>try\<close> body, and the claim holds as far as they return. When the print of the
  farewell returns, a \<^verbatim>\<open>KeyboardInterrupt\<close> raised inside the body of the \<^verbatim>\<open>try\<close>
  statement ends the loop, whatever would follow, after the farewell is printed. When
  the print of the handler returns, every other exception raised inside that body is
  caught and its message printed after the output of the body, also when the handler's
  sleep then raises; when the handler's one sleep of the interval returns as well, the
  loop goes on with the next iteration.
\<close>

theorem try_body_exceptions_handled:
  "(snd (snd (try_body t i c s)) = Some KeyboardInterrupt \<and> handler_print_raises c = None \<longrightarrow>
      watch_loop t i s (c # cs) = (fst (try_body t i c s) @ [Farewell], Break)) \<and>
   (snd (snd (try_body t i c s)) = Some (Exception msg) \<and> handler_print_raises c = None \<longrightarrow>
      prefix (fst (try_body t i c s) @ [ErrorMsg msg]) (fst (watch_loop t i s (c # cs)))) \<and>
   (snd (snd (try_body t i c s)) = Some (Exception msg) \<and> handler_print_raises c = None \<and>
    sleep i (handler_sleep_raises c) = None \<longrightarrow>
      watch_loop t i s (c # cs) =
        (fst (try_body t i c s) @ [ErrorMsg msg, Slept i] @
           fst (watch_loop t i (fst (snd (try_body t i c s))) cs),
         snd (watch_loop t i (fst (snd (try_body t i c s))) cs)))"
proof (intro conjI impI)
  assume "snd (snd (try_body t i c s)) = Some KeyboardInterrupt \<and> handler_print_raises c = None"
  then show "watch_loop t i s (c # cs) = (fst (try_body t i c s) @ [Farewell], Break)"
    using iteration_interrupt [of t i c s] by simp
next
  assume "snd (snd (try_body t i c s)) = Some (Exception msg) \<and> handler_print_raises c = None"
  then have "prefix (fst (try_body t i c s) @ [ErrorMsg msg]) (fst (iteration t i c s))"
    using iteration_error_printed [of t i c s msg] by simp
  then show "prefix (fst (try_body t i c s) @ [ErrorMsg msg]) (fst (watch_loop t i s (c # cs)))"
    using fst_watch_loop_prefix [of t i c s cs] by (rule prefix_order.trans)
next
  assume "snd (snd (try_body t i c s)) = Some (Exception msg) \<and> handler_print_raises c = None \<and>
    sleep i (handler_sleep_raises c) = None"
  then show "watch_loop t i s (c # cs) =
      (fst (try_body t i c s) @ [ErrorMsg msg, Slept i] @
         fst (watch_loop t i (fst (snd (try_body t i c s))) cs),
       snd (watch_loop t i (fst (snd (try_body t i c s))) cs))"
    using iteration_error [of t i c s msg] by (simp split: prod.splits)
qed

theorem try_body_exceptions_handled_witness:
  "watch_loop ''m'' 60 \<lparr>last_balance = Fin 1, last_epoch = 3\<rparr> [cancelled_cycle, example_cycle] =
     ([Snapshot ''m'' (Fin 5) 4 None, NewEpoch (fsub (Fin 5) (Fin 1)), Farewell], Break) \<and>
   prefix [ErrorMsg ''connection refused'']
     (fst (watch_loop ''m'' 60 \<lparr>last_balance = Fin 1, last_epoch = 3\<rparr>
        [interrupted_cycle, example_cycle])) \<and>
   watch_loop ''m'' 60 \<lparr>last_balance = Fin 1, last_epoch = 3\<rparr> [failing_cycle, cancelled_cycle] =
     ([ErrorMsg ''connection refused'', Slept 60, Snapshot ''m'' (Fin 5) 4 None,
       NewEpoch (fsub (Fin 5) (Fin 1)), Farewell], Break)"
proof -
  let ?s = "\<lparr>last_balance = Fin 1, last_epoch = 3\<rparr>"
  have t1: "try_body ''m'' 60 cancelled_cycle ?s =
      ([Snapshot ''m'' (Fin 5) 4 None, NewEpoch (fsub (Fin 5) (Fin 1))],
       \<lparr>last_balance = Fin 5, last_epoch = 4\<rparr>, Some KeyboardInterrupt)"
    by (simp del: fsub.simps add: try_body_def update_and_sleep_def sleep_def display_def
        cancelled_cycle_def example_cycle_def get_miner_balance_def)
  have t2: "try_body ''m'' 60 failing_cycle ?s = ([], ?s, Some (Exception ''connection refused''))"
    by (simp add: try_body_def failing_cycle_def get_miner_balance_def)
  have t3: "try_body ''m'' 60 interrupted_cycle ?s =
      ([], ?s, Some (Exception ''connection refused''))"
    by (simp add: try_body_def interrupted_cycle_def get_miner_balance_def)
  have h: "handler_print_raises cancelled_cycle = None" "handler_print_raises failing_cycle = None"
      "handler_print_raises interrupted_cycle = None"
      "sleep 60 (handler_sleep_raises failing_cycle) = None"
    by (simp_all add: cancelled_cycle_def example_cycle_def failing_cycle_def
        interrupted_cycle_def sleep_def)
  have a: "watch_loop ''m'' 60 ?s (cancelled_cycle # cs) =
      ([Snapshot ''m'' (Fin 5) 4 None, NewEpoch (fsub (Fin 5) (Fin 1)), Farewell], Break)" for cs
    using try_body_exceptions_handled [of "''m''" 60 cancelled_cycle ?s cs] t1 h by simp
  have b: "prefix ([] @ [ErrorMsg ''connection refused''])
      (fst (watch_loop ''m'' 60 ?s (interrupted_cycle # [example_cycle])))"
    using try_body_exceptions_handled [of "''m''" 60 interrupted_cycle ?s "[example_cycle]"
        "''connection refused''"] t3 h by simp
  have "watch_loop ''m'' 60 ?s (failing_cycle # [cancelled_cycle]) =
      ([] @ [ErrorMsg ''connection refused'', Slept 60] @
         fst (watch_loop ''m'' 60 ?s [cancelled_cycle]),
       snd (watch_loop ''m'' 60 ?s [cancelled_cycle]))"
    using try_body_exceptions_handled [of "''m''" 60 failing_cycle ?s "[cancelled_cycle]"
        "''connection refused''"] t2 h by simp
  with a [of "[]"] a [of "[example_cycle]"] b show ?thesis by simp
qed

text \<open>
  The claim as it is stated fails for an exception raised inside an \<^verbatim>\<open>except\<close> clause.
  With a negative interval, \<^verbatim>\<open>time.sleep\<close> raises in the body and again in the handler,
  and the error ends the loop in its first iteration. A \<^verbatim>\<open>KeyboardInterrupt\<close> that arrives
  while the handler sleeps ends the loop without the farewell. When the reader of the
  standard output has gone, the print of the handler raises: the error of the body is
  not printed and the loop ends, and a \<^verbatim>\<open>KeyboardInterrupt\<close> of the body ends the loop
  without the farewell.
\<close>

theorem try_body_exceptions_handled_counterexample:
  "watch_miner ''m'' (- 1) [example_cycle, example_cycle] =
     ([Watching ''m'' (- 1), Snapshot ''m'' (Fin 5) 4 None,
       ErrorMsg ''sleep length must be non-negative''],
      Propagate (Exception ''sleep length must be non-negative'')) \<and>
   watch_miner ''m'' 60 [interrupted_cycle, example_cycle] =
     ([Watching ''m'' 60, ErrorMsg ''connection refused''], Propagate KeyboardInterrupt) \<and>
   watch_miner ''m'' 60 [broken_pipe_cycle, example_cycle] =
     ([Watching ''m'' 60], Propagate (Exception ''[Errno 32] Broken pipe'')) \<and>
   watch_miner ''m'' 60 [cancelled_broken_pipe_cycle, example_cycle] =
     ([Watching ''m'' 60, Snapshot ''m'' (Fin 5) 4 None],
      Propagate (Exception ''[Errno 32] Broken pipe''))"
  by (simp add: watch_miner_def iteration_def try_body_def update_and_sleep_def sleep_def
      display_def example_cycle_def interrupted_cycle_def broken_pipe_cycle_def
      cancelled_broken_pipe_cycle_def cancelled_cycle_def get_miner_balance_def)

end
